theory Spec2Isabelle
  imports Complex_Main "HOL-Library.AList"
begin

section \<open>Python values\<close>

text \<open>
  The exceptions the optimisation agent (\<^verbatim>\<open>backend/agent/optimization.py\<close>) can run
  into.  Every raise of the source is an \<open>Inl\<close> of the model.
\<close>

datatype py_error =
  IndexError | KeyError | TypeError | ValueError | ZeroDivisionError | ValidationError

text \<open>
  Python numbers.  An \<^verbatim>\<open>int\<close> is unbounded; a \<^verbatim>\<open>float\<close> is idealised as a real
  number (no rounding, no overflow, no NaN, no infinity).  The distinction between the
  two is kept because \<^verbatim>\<open>datetime.time\<close> refuses a float.
\<close>

datatype pynum = PyInt int | PyFloat real

fun val :: "pynum \<Rightarrow> real" where
  "val (PyInt i) = real_of_int i"
| "val (PyFloat x) = x"

fun num_add :: "pynum \<Rightarrow> pynum \<Rightarrow> pynum" where
  "num_add (PyInt a) (PyInt b) = PyInt (a + b)"
| "num_add a b = PyFloat (val a + val b)"

fun num_mul :: "pynum \<Rightarrow> pynum \<Rightarrow> pynum" where
  "num_mul (PyInt a) (PyInt b) = PyInt (a * b)"
| "num_mul a b = PyFloat (val a * val b)"

definition num_truediv :: "pynum \<Rightarrow> pynum \<Rightarrow> py_error + pynum" where
  "num_truediv a b =
     (if val b = 0 then Inl ZeroDivisionError else Inr (PyFloat (val a / val b)))"

definition num_le :: "pynum \<Rightarrow> pynum \<Rightarrow> bool" where
  "num_le a b = (val a \<le> val b)"

definition num_lt :: "pynum \<Rightarrow> pynum \<Rightarrow> bool" where
  "num_lt a b = (val a < val b)"

section \<open>The schemas (\<^verbatim>\<open>backend/models/schemas.py\<close>)\<close>

record Location =
  name :: string
  address :: string
  coordinates :: "real \<times> real"

text \<open>\<^verbatim>\<open>datetime.time\<close>, of which the agent reads the hour and the minute only.\<close>

record pytime =
  hour :: int
  minute :: int

record ItineraryStop =
  location :: Location
  start_time :: pytime
  end_time :: pytime
  activity_type :: string
  cost :: real
  status :: string
  travel_time_to_next :: "int option"
  travel_method_to_next :: "string option"

section \<open>The travel graph\<close>

text \<open>
  \<^verbatim>\<open>self.transport_modes\<close>, a dict, in its insertion order (the order in which
  \<^verbatim>\<open>.items()\<close> and iteration over the keys go through it).
\<close>

record mode_params =
  cost_per_km :: pynum
  speed_kmh :: pynum

definition transport_modes :: "(string \<times> mode_params) list" where
  "transport_modes =
     [(''walking'', \<lparr>cost_per_km = PyInt 0, speed_kmh = PyInt 4\<rparr>),
      (''taxi'', \<lparr>cost_per_km = PyInt 2, speed_kmh = PyInt 30\<rparr>),
      (''public_transport'', \<lparr>cost_per_km = PyFloat (1 / 2), speed_kmh = PyInt 20\<rparr>)]"

text \<open>
  An \<^verbatim>\<open>networkx.Graph\<close>: the nodes in insertion order, and one attribute dict per
  undirected edge, stored under both orientations.  An attribute is a number, a string
  or a dict of numbers; a dict is an association list in insertion order.
\<close>

datatype attr = Num pynum | Str string | Dict "(string \<times> pynum) list"

type_synonym attrs = "(string \<times> attr) list"

record graph =
  nodes :: "string list"
  adj :: "string \<times> string \<Rightarrow> attrs option"

definition empty_graph :: graph where
  "empty_graph = \<lparr>nodes = [], adj = (\<lambda>_. None)\<rparr>"

definition add_node :: "string \<Rightarrow> graph \<Rightarrow> graph" where
  "add_node n G = (if n \<in> set (nodes G) then G else G\<lparr>nodes := nodes G @ [n]\<rparr>)"

text \<open>\<^verbatim>\<open>datadict.update(attr)\<close>: an existing key keeps its place and takes the new value.\<close>

definition dict_update :: "attrs \<Rightarrow> attrs \<Rightarrow> attrs" where
  "dict_update d kw = fold (\<lambda>(k, v). AList.update k v) kw d"

text \<open>
  \<^verbatim>\<open>Graph.add_edge(u, v, **attr)\<close>: both ends become nodes, the attribute dict of the
  edge (a new one if the edge is new) is updated with the keyword arguments, and it is
  stored for \<open>(u, v)\<close> and for \<open>(v, u)\<close>.
\<close>

definition add_edge :: "string \<Rightarrow> string \<Rightarrow> attrs \<Rightarrow> graph \<Rightarrow> graph" where
  "add_edge u v kw G =
     (let G1 = add_node v (add_node u G);
          datadict = dict_update (case adj G1 (u, v) of None \<Rightarrow> [] | Some d \<Rightarrow> d) kw
      in G1\<lparr>adj := (adj G1)((u, v) \<mapsto> datadict, (v, u) \<mapsto> datadict)\<rparr>)"

definition get_edge_data :: "graph \<Rightarrow> string \<Rightarrow> string \<Rightarrow> attrs option" where
  "get_edge_data G u v = adj G (u, v)"

text \<open>\<^verbatim>\<open>_calculate_distance\<close>; \<^verbatim>\<open>x ** 0.5\<close> of a sum of squares is its square root.\<close>

definition calculate_distance :: "Location \<Rightarrow> Location \<Rightarrow> pynum" where
  "calculate_distance loc1 loc2 =
     (case coordinates loc1 of (lat1, lon1) \<Rightarrow>
      case coordinates loc2 of (lat2, lon2) \<Rightarrow>
        PyFloat (sqrt ((lat2 - lat1)\<^sup>2 + (lon2 - lon1)\<^sup>2)))"

text \<open>A \<^verbatim>\<open>for\<close> loop over a list whose body may raise.\<close>

fun for_each :: "('a \<Rightarrow> 's \<Rightarrow> py_error + 's) \<Rightarrow> 'a list \<Rightarrow> 's \<Rightarrow> py_error + 's" where
  "for_each f [] s = Inr s"
| "for_each f (x # xs) s = (case f x s of Inl e \<Rightarrow> Inl e | Inr s' \<Rightarrow> for_each f xs s')"

text \<open>The body of the loop over the transport modes (lines 50 to 61).\<close>

definition mode_edge ::
  "Location \<Rightarrow> Location \<Rightarrow> pynum \<Rightarrow> string \<times> mode_params \<Rightarrow> graph \<Rightarrow> py_error + graph" where
  "mode_edge loc1 loc2 distance mp G =
     (case mp of (mode, params) \<Rightarrow>
       (case num_truediv distance (speed_kmh params) of
          Inl e \<Rightarrow> Inl e
        | Inr q \<Rightarrow>
            let travel_time = num_mul q (PyInt 60);
                travel_cost = num_mul distance (cost_per_km params)
            in Inr (add_edge (name loc1) (name loc2)
                      [(''mode'', Str mode), (''distance'', Num distance),
                       (''time'', Num travel_time), (''cost'', Num travel_cost)] G)))"

text \<open>The body of the two loops over the enumerated locations (lines 45 to 61).\<close>

definition pair_edges :: "nat \<times> Location \<Rightarrow> nat \<times> Location \<Rightarrow> graph \<Rightarrow> py_error + graph" where
  "pair_edges p1 p2 G =
     (case p1 of (i, loc1) \<Rightarrow> case p2 of (j, loc2) \<Rightarrow>
        if i \<noteq> j
        then for_each (mode_edge loc1 loc2 (calculate_distance loc1 loc2)) transport_modes G
        else Inr G)"

definition build_graph :: "Location list \<Rightarrow> py_error + graph" where
  "build_graph locations =
     for_each (\<lambda>p1. for_each (pair_edges p1) (List.enumerate 0 locations))
       (List.enumerate 0 locations) empty_graph"

definition create_travel_graph ::
  "ItineraryStop list \<Rightarrow> Location option \<Rightarrow> py_error + graph" where
  "create_travel_graph stops starting_point =
     build_graph (case starting_point of
                    Some sp \<Rightarrow> sp # map location stops
                  | None \<Rightarrow> map location stops)"

section \<open>The path selector\<close>

text \<open>One element of the list \<^verbatim>\<open>_calculate_optimal_path\<close> returns (lines 93 to 99).\<close>

record segment =
  seg_from :: string
  seg_to :: string
  seg_mode :: string
  seg_time :: pynum
  seg_cost :: pynum

text \<open>\<^verbatim>\<open>edge_data[mode][key]\<close>, with the two ways a subscript can fail.\<close>

definition mode_attr :: "attrs \<Rightarrow> string \<Rightarrow> string \<Rightarrow> py_error + pynum" where
  "mode_attr edge_data mode key =
     (case map_of edge_data mode of
        None \<Rightarrow> Inl KeyError
      | Some (Dict d) \<Rightarrow> (case map_of d key of None \<Rightarrow> Inl KeyError | Some x \<Rightarrow> Inr x)
      | Some _ \<Rightarrow> Inl TypeError)"

text \<open>\<^verbatim>\<open>G[u][v][mode][key]\<close>.\<close>

definition graph_attr :: "graph \<Rightarrow> string \<Rightarrow> string \<Rightarrow> string \<Rightarrow> string \<Rightarrow> py_error + pynum" where
  "graph_attr G u v mode key =
     (case adj G (u, v) of None \<Rightarrow> Inl KeyError | Some d \<Rightarrow> mode_attr d mode key)"

text \<open>
  The best candidate so far: \<open>None\<close> stands for \<^verbatim>\<open>best_score = inf\<close>,
  \<^verbatim>\<open>best_next = None\<close>; otherwise the score, the node and the mode.
\<close>

type_synonym best = "(pynum \<times> string \<times> string) option"

text \<open>The body of the loop over the modes (lines 81 to 88).\<close>

definition candidate_step ::
  "graph \<Rightarrow> pynum \<Rightarrow> string \<Rightarrow> pynum \<Rightarrow> string \<Rightarrow> string \<Rightarrow> best \<Rightarrow> py_error + best" where
  "candidate_step G budget current_node current_cost next_node mode b =
     (case get_edge_data G current_node next_node of
        None \<Rightarrow> Inr b
      | Some edge_data \<Rightarrow>
          if edge_data = [] then Inr b
          else
            (case mode_attr edge_data mode ''cost'' of
               Inl e \<Rightarrow> Inl e
             | Inr c \<Rightarrow>
                 if num_le (num_add c current_cost) budget
                 then
                   (case mode_attr edge_data mode ''time'' of
                      Inl e \<Rightarrow> Inl e
                    | Inr t \<Rightarrow>
                        let score = num_add t (num_mul c (PyInt 10))
                        in if (case b of None \<Rightarrow> True | Some (best_score, _, _) \<Rightarrow> num_lt score best_score)
                           then Inr (Some (score, next_node, mode))
                           else Inr b)
                 else Inr b))"

text \<open>The two nested loops of one iteration (lines 79 to 88).\<close>

definition scan ::
  "graph \<Rightarrow> pynum \<Rightarrow> string \<Rightarrow> pynum \<Rightarrow> string list \<Rightarrow> best \<Rightarrow> py_error + best" where
  "scan G budget current_node current_cost remaining_nodes b =
     for_each
       (\<lambda>next_node. for_each (candidate_step G budget current_node current_cost next_node)
                      (map fst transport_modes))
       remaining_nodes b"

text \<open>
  The state of the \<^verbatim>\<open>while remaining_nodes\<close> loop: \<open>current_node\<close>,
  \<open>remaining_nodes\<close>, \<open>current_cost\<close> and \<open>optimal_path\<close>.  \<open>remaining_nodes\<close> is the
  Python set, as the list of its elements in the order the \<^verbatim>\<open>for\<close> loop goes
  through them; removing an element leaves the others in their order.
\<close>

type_synonym loop_state = "string \<times> string list \<times> pynum \<times> segment list"

datatype loop_result = Raised py_error | Finished "segment list" | Next loop_state

text \<open>
  One test of the loop condition and one pass through the loop body (lines 74 to 103):
  the loop ends with the path built so far, or an exception is raised, or the next
  iteration starts from a new state.
\<close>

definition iteration :: "graph \<Rightarrow> pynum \<Rightarrow> loop_state \<Rightarrow> loop_result" where
  "iteration G budget st =
     (case st of (current_node, remaining_nodes, current_cost, optimal_path) \<Rightarrow>
        if remaining_nodes = [] then Finished optimal_path
        else
          (case scan G budget current_node current_cost remaining_nodes None of
             Inl e \<Rightarrow> Raised e
           | Inr None \<Rightarrow> Finished optimal_path
           | Inr (Some (best_score, best_next, best_mode)) \<Rightarrow>
               (case graph_attr G current_node best_next best_mode ''time'' of
                  Inl e \<Rightarrow> Raised e
                | Inr t \<Rightarrow>
                    (case graph_attr G current_node best_next best_mode ''cost'' of
                       Inl e \<Rightarrow> Raised e
                     | Inr c \<Rightarrow>
                         if best_next \<in> set remaining_nodes
                         then Next (best_next, removeAll best_next remaining_nodes,
                                num_add current_cost c,
                                optimal_path @
                                  [\<lparr>seg_from = current_node, seg_to = best_next,
                                    seg_mode = best_mode, seg_time = t, seg_cost = c\<rparr>])
                         else Raised KeyError))))"

function select_loop :: "graph \<Rightarrow> pynum \<Rightarrow> loop_state \<Rightarrow> py_error + segment list" where
  "select_loop G budget st =
     (case iteration G budget st of
        Raised e \<Rightarrow> Inl e
      | Finished optimal_path \<Rightarrow> Inr optimal_path
      | Next st' \<Rightarrow> select_loop G budget st')"
  by pat_completeness auto
termination
proof (relation "measure (\<lambda>(G, budget, st). length (fst (snd st)))")
  show "wf (measure (\<lambda>(G, budget, st). length (fst (snd st))))"
    by simp
next
  fix G :: graph and budget :: pynum and st st' :: loop_state
  assume step: "iteration G budget st = Next st'"
  obtain u remaining cc p where st: "st = (u, remaining, cc, p)"
    by (cases st)
  from step st obtain v where "v \<in> set remaining" and "fst (snd st') = removeAll v remaining"
    by (auto simp: iteration_def split: if_splits sum.splits option.splits)
  then have "length (fst (snd st')) < length (fst (snd st))"
    using st by (simp add: length_removeAll_less)
  then show "((G, budget, st'), (G, budget, st)) \<in> measure (\<lambda>(G, budget, st). length (fst (snd st)))"
    by simp
qed

declare select_loop.simps [simp del]

text \<open>The state the loop is in after \<open>n\<close> more iterations, if it gets that far.\<close>

fun after_iterations :: "graph \<Rightarrow> pynum \<Rightarrow> nat \<Rightarrow> loop_state \<Rightarrow> loop_state option" where
  "after_iterations G budget 0 st = Some st"
| "after_iterations G budget (Suc n) st =
     (case iteration G budget st of
        Next st' \<Rightarrow> after_iterations G budget n st'
      | _ \<Rightarrow> None)"

text \<open>
  \<^verbatim>\<open>_calculate_optimal_path\<close>.  The order in which Python iterates over
  \<^verbatim>\<open>set(nodes[1:])\<close> depends on the hashes of the strings; it is the parameter
  \<open>set_order\<close>.
\<close>

definition calculate_optimal_path ::
  "(string list \<Rightarrow> string list) \<Rightarrow> graph \<Rightarrow> pynum \<Rightarrow> py_error + segment list" where
  "calculate_optimal_path set_order G budget =
     (case nodes G of
        [] \<Rightarrow> Inl IndexError
      | current_node # rest \<Rightarrow> select_loop G budget (current_node, set_order rest, PyInt 0, []))"

section \<open>The scheduler\<close>

text \<open>
  \<^verbatim>\<open>datetime.time(hour=h, minute=m)\<close>: a float is refused with a TypeError, an
  integer out of range with a ValueError.
\<close>

definition mk_time :: "pynum \<Rightarrow> pynum \<Rightarrow> py_error + pytime" where
  "mk_time h m =
     (case h of
        PyFloat _ \<Rightarrow> Inl TypeError
      | PyInt hh \<Rightarrow>
          (case m of
             PyFloat _ \<Rightarrow> Inl TypeError
           | PyInt mm \<Rightarrow>
               if 0 \<le> hh \<and> hh \<le> 23 \<and> 0 \<le> mm \<and> mm \<le> 59
               then Inr \<lparr>hour = hh, minute = mm\<rparr>
               else Inl ValueError))"

text \<open>\<^verbatim>\<open>minutes // 60\<close> and \<^verbatim>\<open>minutes % 60\<close>: floor division, on a float too.\<close>

fun floordiv60 :: "pynum \<Rightarrow> pynum" where
  "floordiv60 (PyInt a) = PyInt (a div 60)"
| "floordiv60 (PyFloat x) = PyFloat (of_int \<lfloor>x / 60\<rfloor>)"

fun mod60 :: "pynum \<Rightarrow> pynum" where
  "mod60 (PyInt a) = PyInt (a mod 60)"
| "mod60 (PyFloat x) = PyFloat (x - 60 * of_int \<lfloor>x / 60\<rfloor>)"

definition minutes_to_time :: "pynum \<Rightarrow> py_error + pytime" where
  "minutes_to_time minutes = mk_time (floordiv60 minutes) (mod60 minutes)"

text \<open>
  The keyword arguments of a call \<^verbatim>\<open>ItineraryStop(...)\<close>: \<open>None\<close> for a keyword the
  call does not pass.  The value given for \<^verbatim>\<open>location\<close> is a \<^verbatim>\<open>Location\<close> or a
  string.
\<close>

datatype loc_arg = LocObj Location | LocName string

record stop_kwargs =
  kw_location :: "loc_arg option"
  kw_start_time :: "pytime option"
  kw_end_time :: "pytime option"
  kw_activity_type :: "string option"
  kw_cost :: "pynum option"
  kw_status :: "string option"
  kw_travel_time_to_next :: "pynum option"
  kw_travel_method_to_next :: "string option"

text \<open>
  What pydantic does with the value for \<^verbatim>\<open>travel_time_to_next: Optional[int]\<close>: an
  integer is taken, a float is taken when it has no fractional part (pydantic 2 refuses
  the others).
\<close>

definition int_field :: "pynum option \<Rightarrow> py_error + int option" where
  "int_field v =
     (case v of
        None \<Rightarrow> Inr None
      | Some (PyInt n) \<Rightarrow> Inr (Some n)
      | Some (PyFloat x) \<Rightarrow>
          if of_int \<lfloor>x\<rfloor> = x then Inr (Some \<lfloor>x\<rfloor>) else Inl ValidationError)"

text \<open>
  The validation pydantic runs when \<^verbatim>\<open>ItineraryStop\<close> is constructed: the six
  fields of the schema without a default are required, and \<^verbatim>\<open>location\<close> has to be a
  \<^verbatim>\<open>Location\<close>.
\<close>

definition ItineraryStop_init :: "stop_kwargs \<Rightarrow> py_error + ItineraryStop" where
  "ItineraryStop_init kw =
     (case (kw_location kw, kw_start_time kw, kw_end_time kw,
            kw_activity_type kw, kw_cost kw, kw_status kw) of
        (Some (LocObj l), Some st, Some et, Some a, Some c, Some s) \<Rightarrow>
          (case int_field (kw_travel_time_to_next kw) of
             Inl e \<Rightarrow> Inl e
           | Inr tt \<Rightarrow>
               Inr \<lparr>location = l, start_time = st, end_time = et, activity_type = a,
                    cost = val c, status = s, travel_time_to_next = tt,
                    travel_method_to_next = kw_travel_method_to_next kw\<rparr>)
      | _ \<Rightarrow> Inl ValidationError)"

text \<open>The keyword arguments of the call at lines 127 to 134.\<close>

definition slot_kwargs :: "segment \<Rightarrow> pytime \<Rightarrow> pytime \<Rightarrow> stop_kwargs" where
  "slot_kwargs seg st et =
     \<lparr>kw_location = Some (LocName (seg_to seg)),
      kw_start_time = Some st,
      kw_end_time = Some et,
      kw_activity_type = None,
      kw_cost = Some (seg_cost seg),
      kw_status = None,
      kw_travel_time_to_next = Some (seg_time seg),
      kw_travel_method_to_next = Some (seg_mode seg)\<rparr>"

text \<open>
  The loop of \<^verbatim>\<open>_assign_time_slots\<close> (lines 119 to 138).  The arguments of the
  constructor call are evaluated from left to right before the call.
\<close>

fun slot_loop ::
  "segment list \<Rightarrow> pynum \<Rightarrow> pynum \<Rightarrow> ItineraryStop list \<Rightarrow> py_error + ItineraryStop list" where
  "slot_loop [] current_time end_minutes scheduled_stops = Inr scheduled_stops"
| "slot_loop (seg # rest) current_time end_minutes scheduled_stops =
     (let current_time1 = num_add current_time (seg_time seg);
          stop_duration = PyInt 60
      in if num_le (num_add current_time1 stop_duration) end_minutes
         then
           (case minutes_to_time current_time1 of
              Inl e \<Rightarrow> Inl e
            | Inr st \<Rightarrow>
                (case minutes_to_time (num_add current_time1 stop_duration) of
                   Inl e \<Rightarrow> Inl e
                 | Inr et \<Rightarrow>
                     (case ItineraryStop_init (slot_kwargs seg st et) of
                        Inl e \<Rightarrow> Inl e
                      | Inr stop \<Rightarrow>
                          slot_loop rest (num_add current_time1 stop_duration) end_minutes
                            (scheduled_stops @ [stop]))))
         else Inr scheduled_stops)"

definition minutes_of :: "pytime \<Rightarrow> pynum" where
  "minutes_of t = PyInt (hour t * 60 + minute t)"

definition assign_time_slots ::
  "segment list \<Rightarrow> pytime \<Rightarrow> pytime \<Rightarrow> py_error + ItineraryStop list" where
  "assign_time_slots path start_t end_t =
     slot_loop path (minutes_of start_t) (minutes_of end_t) []"

text \<open>\<^verbatim>\<open>sum(stop.cost for stop in stops)\<close>, which starts from the integer 0.\<close>

definition calculate_total_cost :: "ItineraryStop list \<Rightarrow> pynum" where
  "calculate_total_cost stops = foldl num_add (PyInt 0) (map (\<lambda>stop. PyFloat (cost stop)) stops)"

section \<open>The pipeline\<close>

text \<open>
  Lines 27 to 35 of \<^verbatim>\<open>optimize_route\<close>: what is done with the graph once it is built.
\<close>

definition route_on_graph ::
  "(string list \<Rightarrow> string list) \<Rightarrow> graph \<Rightarrow> pynum \<Rightarrow> pytime \<Rightarrow> pytime \<Rightarrow>
   py_error + (ItineraryStop list \<times> pynum)" where
  "route_on_graph set_order G budget start_t end_t =
     (case calculate_optimal_path set_order G budget of
        Inl e \<Rightarrow> Inl e
      | Inr optimized_path \<Rightarrow>
          (case assign_time_slots optimized_path start_t end_t of
             Inl e \<Rightarrow> Inl e
           | Inr scheduled_stops \<Rightarrow>
               Inr (scheduled_stops, calculate_total_cost scheduled_stops)))"

definition optimize_route ::
  "(string list \<Rightarrow> string list) \<Rightarrow> ItineraryStop list \<Rightarrow> pynum \<Rightarrow> pytime \<Rightarrow> pytime \<Rightarrow>
   Location option \<Rightarrow> py_error + (ItineraryStop list \<times> pynum)" where
  "optimize_route set_order stops budget start_t end_t starting_point =
     (case create_travel_graph stops starting_point of
        Inl e \<Rightarrow> Inl e
      | Inr G \<Rightarrow> route_on_graph set_order G budget start_t end_t)"

section \<open>Notions used to state the properties\<close>

text \<open>
  A hop from \<open>u\<close> to \<open>v\<close> by \<open>mode\<close> is eligible when its cost can be read from the graph
  and, added to what has been spent, stays within the budget.
\<close>

definition eligible :: "graph \<Rightarrow> pynum \<Rightarrow> string \<Rightarrow> real \<Rightarrow> string \<Rightarrow> string \<Rightarrow> bool" where
  "eligible G budget u spent v mode =
     (case graph_attr G u v mode ''cost'' of
        Inr c \<Rightarrow> val c + spent \<le> val budget
      | Inl _ \<Rightarrow> False)"

text \<open>The score of a hop: its travel time plus ten times its travel cost.\<close>

definition score :: "graph \<Rightarrow> string \<Rightarrow> string \<Rightarrow> string \<Rightarrow> real option" where
  "score G u v mode =
     (case graph_attr G u v mode ''time'' of
        Inr t \<Rightarrow> (case graph_attr G u v mode ''cost'' of
                    Inr c \<Rightarrow> Some (val t + 10 * val c)
                  | Inl _ \<Rightarrow> None)
      | Inl _ \<Rightarrow> None)"

definition beats :: "real \<Rightarrow> real option \<Rightarrow> bool" where
  "beats s other = (case other of Some s' \<Rightarrow> s \<le> s' | None \<Rightarrow> False)"

text \<open>
  The invariant of the two nested loops: \<open>V\<close> is the set of the (node, mode) pairs
  looked at so far, and the best candidate is eligible and minimal among them.
\<close>

definition best_ok ::
  "graph \<Rightarrow> pynum \<Rightarrow> string \<Rightarrow> pynum \<Rightarrow> (string \<times> string) set \<Rightarrow> best \<Rightarrow> bool" where
  "best_ok G budget u cc V b =
     (case b of
        None \<Rightarrow> \<forall>(v, m) \<in> V. \<not> eligible G budget u (val cc) v m
      | Some (s, v, m) \<Rightarrow>
          (v, m) \<in> V \<and> eligible G budget u (val cc) v m \<and> score G u v m = Some (val s) \<and>
          (\<forall>(v', m') \<in> V. eligible G budget u (val cc) v' m' \<longrightarrow> beats (val s) (score G u v' m')))"

text \<open>
  A path is a greedy trace from node \<open>u\<close>, with the nodes \<open>remaining\<close> still to visit and
  \<open>spent\<close> already paid, when each of its segments leaves from where the previous one
  arrived, goes to a node not visited yet by one of the transport modes, carries the time
  and the cost the graph has for that hop, keeps the money spent within the budget, and
  has a score no eligible (node, mode) pair of that moment beats.
\<close>

fun greedy_trace ::
  "graph \<Rightarrow> pynum \<Rightarrow> string \<Rightarrow> string list \<Rightarrow> real \<Rightarrow> segment list \<Rightarrow> bool" where
  "greedy_trace G budget u remaining spent [] = True"
| "greedy_trace G budget u remaining spent (s # ss) =
     (seg_from s = u \<and> seg_to s \<in> set remaining \<and>
      seg_mode s \<in> set (map fst transport_modes) \<and>
      graph_attr G u (seg_to s) (seg_mode s) ''time'' = Inr (seg_time s) \<and>
      graph_attr G u (seg_to s) (seg_mode s) ''cost'' = Inr (seg_cost s) \<and>
      val (seg_cost s) + spent \<le> val budget \<and>
      (\<forall>v \<in> set remaining. \<forall>mode \<in> set (map fst transport_modes).
         eligible G budget u spent v mode \<longrightarrow>
         beats (val (seg_time s) + 10 * val (seg_cost s)) (score G u v mode)) \<and>
      greedy_trace G budget (seg_to s) (removeAll (seg_to s) remaining)
        (spent + val (seg_cost s)) ss)"

definition travel_cost_sum :: "segment list \<Rightarrow> real" where
  "travel_cost_sum path = sum_list (map (\<lambda>s. val (seg_cost s)) path)"

text \<open>
  The pair \<open>(v, mode)\<close> is no candidate within the budget: there is no edge to \<open>v\<close> (or
  its attribute dict is empty), or the cost of the mode, added to the cost so far,
  exceeds the budget.
\<close>

definition out_of_budget ::
  "graph \<Rightarrow> pynum \<Rightarrow> string \<Rightarrow> pynum \<Rightarrow> string \<Rightarrow> string \<Rightarrow> bool" where
  "out_of_budget G budget u cc v mode =
     (case get_edge_data G u v of
        None \<Rightarrow> True
      | Some d \<Rightarrow>
          d = [] \<or>
          (case mode_attr d mode ''cost'' of
             Inr c \<Rightarrow> \<not> num_le (num_add c cc) budget
           | Inl _ \<Rightarrow> False))"

text \<open>The first segment of a path fits the window: the test of line 126.\<close>

definition first_fits :: "pytime \<Rightarrow> segment \<Rightarrow> pytime \<Rightarrow> bool" where
  "first_fits start_t seg end_t =
     num_le (num_add (num_add (minutes_of start_t) (seg_time seg)) (PyInt 60)) (minutes_of end_t)"

text \<open>
  The attribute dict the last transport mode of the catalogue writes for an edge of
  length \<open>x\<close>.
\<close>

definition last_mode_attrs :: "real \<Rightarrow> attrs" where
  "last_mode_attrs x =
     (case last transport_modes of
        (mode, params) \<Rightarrow>
          [(''mode'', Str mode), (''distance'', Num (PyFloat x)),
           (''time'', Num (PyFloat (x / val (speed_kmh params) * 60))),
           (''cost'', Num (PyFloat (x * val (cost_per_km params))))])"

text \<open>
  Used in the proofs about the graph builder: an edge stored with a given attribute
  dict, the keys of the keyword arguments, an edge that has these keys (or is absent),
  the invariant of the two loops over the locations, and the presence of an edge.
\<close>

definition put_edge :: "string \<Rightarrow> string \<Rightarrow> attrs \<Rightarrow> graph \<Rightarrow> graph" where
  "put_edge u v d G =
     \<lparr>nodes = nodes (add_node v (add_node u G)), adj = (adj G)((u, v) \<mapsto> d, (v, u) \<mapsto> d)\<rparr>"

definition edge_keys :: "string list" where
  "edge_keys = [''mode'', ''distance'', ''time'', ''cost'']"

definition keyed :: "graph \<Rightarrow> string \<Rightarrow> string \<Rightarrow> bool" where
  "keyed G u v = (case adj G (u, v) of None \<Rightarrow> True | Some d \<Rightarrow> map fst d = edge_keys)"

definition built :: "graph \<Rightarrow> bool" where
  "built G =
     (distinct (nodes G) \<and>
      (\<forall>u v. adj G (u, v) = adj G (v, u)) \<and>
      (\<forall>p d. adj G p = Some d \<longrightarrow> (\<exists>x. d = last_mode_attrs x)))"

definition has_edge :: "string \<times> string \<Rightarrow> graph \<Rightarrow> bool" where
  "has_edge p G = (adj G p \<noteq> None)"







subsection \<open>Concrete inputs\<close>

text \<open>
  A graph whose edges carry one dict per transport mode, as the selector reads them:
  three nodes, \<open>S\<close> first.
\<close>

definition demo_sa :: attrs where
  "demo_sa = [(''walking'', Dict [(''time'', PyFloat 30), (''cost'', PyFloat 0)]),
              (''taxi'', Dict [(''time'', PyFloat 4), (''cost'', PyFloat 4)]),
              (''public_transport'', Dict [(''time'', PyFloat 6), (''cost'', PyFloat 1)])]"

definition demo_sb :: attrs where
  "demo_sb = [(''walking'', Dict [(''time'', PyFloat 75), (''cost'', PyFloat 0)]),
              (''taxi'', Dict [(''time'', PyFloat 10), (''cost'', PyFloat 10)]),
              (''public_transport'', Dict [(''time'', PyFloat 15), (''cost'', PyFloat (5 / 2))])]"

definition demo_ab :: attrs where
  "demo_ab = [(''walking'', Dict [(''time'', PyFloat 45), (''cost'', PyFloat 3)]),
              (''taxi'', Dict [(''time'', PyFloat 6), (''cost'', PyFloat 6)]),
              (''public_transport'', Dict [(''time'', PyFloat 9), (''cost'', PyFloat 2)])]"

definition demo_graph :: graph where
  "demo_graph =
     \<lparr>nodes = [''S'', ''A'', ''B''],
      adj = map_of [((''S'', ''A''), demo_sa), ((''A'', ''S''), demo_sa),
                    ((''S'', ''B''), demo_sb), ((''B'', ''S''), demo_sb),
                    ((''A'', ''B''), demo_ab), ((''B'', ''A''), demo_ab)]\<rparr>"

definition hop_sa :: segment where
  "hop_sa = \<lparr>seg_from = ''S'', seg_to = ''A'', seg_mode = ''public_transport'',
             seg_time = PyFloat 6, seg_cost = PyFloat 1\<rparr>"

definition hop_ab :: segment where
  "hop_ab = \<lparr>seg_from = ''A'', seg_to = ''B'', seg_mode = ''public_transport'',
             seg_time = PyFloat 9, seg_cost = PyFloat 2\<rparr>"

text \<open>Two hops with whole minutes, a hop of thirteen hours, and a day from 09:00 to 18:00.\<close>

definition walk_ab :: segment where
  "walk_ab = \<lparr>seg_from = ''A'', seg_to = ''B'', seg_mode = ''walking'',
              seg_time = PyInt 10, seg_cost = PyInt 0\<rparr>"

definition walk_bc :: segment where
  "walk_bc = \<lparr>seg_from = ''B'', seg_to = ''C'', seg_mode = ''walking'',
              seg_time = PyInt 20, seg_cost = PyInt 0\<rparr>"

definition far_ab :: segment where
  "far_ab = \<lparr>seg_from = ''A'', seg_to = ''B'', seg_mode = ''walking'',
             seg_time = PyInt 780, seg_cost = PyInt 0\<rparr>"

definition nine :: pytime where
  "nine = \<lparr>hour = 9, minute = 0\<rparr>"

definition eighteen :: pytime where
  "eighteen = \<lparr>hour = 18, minute = 0\<rparr>"

text \<open>Two places two units apart, a stop at a place, and the graph built for the two.\<close>

definition place_a :: Location where
  "place_a = \<lparr>name = ''A'', address = ''1 First Street'', coordinates = (0, 0)\<rparr>"

definition place_b :: Location where
  "place_b = \<lparr>name = ''B'', address = ''2 Second Street'', coordinates = (0, 2)\<rparr>"

definition visit :: "Location \<Rightarrow> ItineraryStop" where
  "visit l = \<lparr>location = l, start_time = \<lparr>hour = 0, minute = 0\<rparr>,
              end_time = \<lparr>hour = 0, minute = 0\<rparr>, activity_type = ''sight'', cost = 5,
              status = ''planned'', travel_time_to_next = None, travel_method_to_next = None\<rparr>"

definition two_places :: graph where
  "two_places =
     put_edge ''B'' ''A'' (last_mode_attrs 2) (put_edge ''A'' ''B'' (last_mode_attrs 2) empty_graph)"










section \<open>Numbers\<close>

lemma val_num_add [simp]: "val (num_add a b) = val a + val b"
  by (cases a; cases b) simp_all

lemma val_num_mul [simp]: "val (num_mul a b) = val a * val b"
  by (cases a; cases b) simp_all

section \<open>The selector: one iteration\<close>

lemma candidate_step_ok:
  assumes "best_ok G budget u cc V b"
    and "candidate_step G budget u cc v m b = Inr b'"
  shows "best_ok G budget u cc (insert (v, m) V) b'"
proof (cases "get_edge_data G u v")
  case None
  then have "b' = b" and "\<not> eligible G budget u (val cc) v m"
    using assms(2) by (auto simp: candidate_step_def eligible_def graph_attr_def get_edge_data_def)
  with assms(1) show ?thesis
    by (auto simp: best_ok_def split: option.splits)
next
  case (Some d)
  show ?thesis
  proof (cases "d = []")
    case True
    with Some have "b' = b" and "\<not> eligible G budget u (val cc) v m"
      using assms(2)
      by (auto simp: candidate_step_def eligible_def graph_attr_def get_edge_data_def mode_attr_def)
    with assms(1) show ?thesis
      by (auto simp: best_ok_def split: option.splits)
  next
    case False
    with Some assms(2) obtain c where c: "mode_attr d m ''cost'' = Inr c"
      by (auto simp: candidate_step_def split: sum.splits)
    then have gc: "graph_attr G u v m ''cost'' = Inr c"
      using Some by (simp add: graph_attr_def get_edge_data_def)
    show ?thesis
    proof (cases "num_le (num_add c cc) budget")
      case False
      with Some \<open>d \<noteq> []\<close> c assms(2) have "b' = b"
        by (auto simp: candidate_step_def)
      moreover have "\<not> eligible G budget u (val cc) v m"
        using False gc by (simp add: eligible_def num_le_def)
      ultimately show ?thesis
        using assms(1) by (auto simp: best_ok_def split: option.splits)
    next
      case True
      with Some \<open>d \<noteq> []\<close> c assms(2) obtain t where t: "mode_attr d m ''time'' = Inr t"
        by (auto simp: candidate_step_def split: sum.splits)
      then have gt: "graph_attr G u v m ''time'' = Inr t"
        using Some by (simp add: graph_attr_def get_edge_data_def)
      have el: "eligible G budget u (val cc) v m"
        using True gc by (simp add: eligible_def num_le_def)
      define s where "s = num_add t (num_mul c (PyInt 10))"
      have sc: "score G u v m = Some (val s)"
        using gt gc by (simp add: score_def s_def)
      have step: "b' = (if (case b of None \<Rightarrow> True | Some (bs, _, _) \<Rightarrow> num_lt s bs)
                        then Some (s, v, m) else b)"
        using Some \<open>d \<noteq> []\<close> c t True assms(2) unfolding s_def
        by (auto simp: candidate_step_def Let_def split: if_splits)
      show ?thesis
      proof (cases b)
        case None
        with step have "b' = Some (s, v, m)" by simp
        with assms(1) None el sc show ?thesis
          by (auto simp: best_ok_def beats_def)
      next
        case (Some triple)
        obtain bs bv bm where triple: "triple = (bs, bv, bm)"
          by (cases triple)
        show ?thesis
        proof (cases "num_lt s bs")
          case True
          with step Some triple have "b' = Some (s, v, m)" by simp
          moreover have "\<forall>(v', m') \<in> V. eligible G budget u (val cc) v' m'
                           \<longrightarrow> beats (val s) (score G u v' m')"
            using assms(1) Some triple True
            by (fastforce simp: best_ok_def beats_def num_lt_def split: option.splits)
          ultimately show ?thesis
            using el sc by (auto simp: best_ok_def beats_def)
        next
          case False
          with step Some triple have "b' = b" by simp
          moreover have "beats (val bs) (score G u v m)"
            using False sc by (simp add: beats_def num_lt_def)
          ultimately show ?thesis
            using assms(1) Some triple by (auto simp: best_ok_def)
        qed
      qed
    qed
  qed
qed

lemma modes_ok:
  assumes "for_each (candidate_step G budget u cc v) ms b = Inr b'"
    and "best_ok G budget u cc V b"
  shows "best_ok G budget u cc (V \<union> {v} \<times> set ms) b'"
  using assms
proof (induction ms arbitrary: b V)
  case Nil
  then show ?case by simp
next
  case (Cons m ms)
  from Cons.prems(1) obtain b1 where b1: "candidate_step G budget u cc v m b = Inr b1"
    and rest: "for_each (candidate_step G budget u cc v) ms b1 = Inr b'"
    by (auto split: sum.splits)
  have "best_ok G budget u cc (insert (v, m) V) b1"
    using candidate_step_ok [OF Cons.prems(2) b1] .
  from Cons.IH [OF rest this] show ?case
    by (simp add: insert_commute Un_commute)
qed

lemma scan_ok:
  assumes "scan G budget u cc ns b = Inr b'"
    and "best_ok G budget u cc V b"
  shows "best_ok G budget u cc (V \<union> set ns \<times> set (map fst transport_modes)) b'"
  using assms unfolding scan_def
proof (induction ns arbitrary: b V)
  case Nil
  then show ?case by simp
next
  case (Cons v ns)
  from Cons.prems(1) obtain b1
    where b1: "for_each (candidate_step G budget u cc v) (map fst transport_modes) b = Inr b1"
      and rest: "for_each (\<lambda>next_node. for_each (candidate_step G budget u cc next_node)
                    (map fst transport_modes)) ns b1 = Inr b'"
    by (auto split: sum.splits)
  have "best_ok G budget u cc (V \<union> {v} \<times> set (map fst transport_modes)) b1"
    using modes_ok [OF b1 Cons.prems(2)] .
  from Cons.IH [OF rest this] show ?case
    by (simp add: Un_assoc Sigma_Un_distrib1 [symmetric])
qed

lemma candidate_step_out:
  "out_of_budget G budget u cc v m \<Longrightarrow> candidate_step G budget u cc v m b = Inr b"
  by (auto simp: out_of_budget_def candidate_step_def split: option.splits sum.splits)

lemma modes_out:
  "\<forall>m \<in> set ms. out_of_budget G budget u cc v m \<Longrightarrow>
   for_each (candidate_step G budget u cc v) ms b = Inr b"
  by (induction ms) (simp_all add: candidate_step_out)

lemma scan_out:
  "\<forall>v \<in> set ns. \<forall>m \<in> set (map fst transport_modes). out_of_budget G budget u cc v m \<Longrightarrow>
   scan G budget u cc ns b = Inr b"
  unfolding scan_def by (induction ns) (simp_all add: modes_out)

section \<open>The selector: the loop\<close>

lemma iteration_Next:
  assumes "iteration G budget (u, remaining, cc, p) = Next st'"
  obtains s v m t c where "scan G budget u cc remaining None = Inr (Some (s, v, m))"
    and "graph_attr G u v m ''time'' = Inr t" and "graph_attr G u v m ''cost'' = Inr c"
    and "v \<in> set remaining"
    and "st' = (v, removeAll v remaining, num_add cc c,
                p @ [\<lparr>seg_from = u, seg_to = v, seg_mode = m, seg_time = t, seg_cost = c\<rparr>])"
  using assms
  by (auto simp: iteration_def split: if_splits sum.splits option.splits)

lemma iteration_Finished:
  "iteration G budget (u, remaining, cc, p) = Finished q \<Longrightarrow> q = p"
  by (auto simp: iteration_def split: if_splits sum.splits option.splits)

lemma select_loop_trace_aux:
  "select_loop G budget st = Inr path \<Longrightarrow>
   (case st of (u, remaining, cc, p0) \<Rightarrow>
      \<exists>segs. path = p0 @ segs \<and> greedy_trace G budget u remaining (val cc) segs)"
proof (induction G budget st rule: select_loop.induct)
  case (1 G budget st)
  obtain u remaining cc p0 where st: "st = (u, remaining, cc, p0)"
    by (cases st)
  show ?case
  proof (cases "iteration G budget st")
    case (Raised e)
    with "1.prems" show ?thesis
      by (simp add: select_loop.simps)
  next
    case (Finished q)
    with "1.prems" have "path = q"
      by (simp add: select_loop.simps)
    moreover have "q = p0"
      using Finished st iteration_Finished by simp
    ultimately show ?thesis
      using st by simp
  next
    case (Next st')
    with "1.prems" have rec: "select_loop G budget st' = Inr path"
      by (simp add: select_loop.simps)
    from Next st obtain s v m t c
      where sc: "scan G budget u cc remaining None = Inr (Some (s, v, m))"
        and t: "graph_attr G u v m ''time'' = Inr t"
        and c: "graph_attr G u v m ''cost'' = Inr c"
        and mem: "v \<in> set remaining"
        and st': "st' = (v, removeAll v remaining, num_add cc c,
                   p0 @ [\<lparr>seg_from = u, seg_to = v, seg_mode = m, seg_time = t, seg_cost = c\<rparr>])"
      by (auto elim: iteration_Next)
    define sg where "sg = \<lparr>seg_from = u, seg_to = v, seg_mode = m, seg_time = t, seg_cost = c\<rparr>"
    from "1.IH" [OF Next rec] st'
    obtain segs where segs: "path = (p0 @ [sg]) @ segs"
      and tr: "greedy_trace G budget v (removeAll v remaining) (val (num_add cc c)) segs"
      by (auto simp: sg_def)
    have "best_ok G budget u cc {} None"
      by (simp add: best_ok_def)
    from scan_ok [OF sc this]
    have ok: "best_ok G budget u cc (set remaining \<times> set (map fst transport_modes))
                (Some (s, v, m))"
      by simp
    then have el: "eligible G budget u (val cc) v m" and sco: "score G u v m = Some (val s)"
      and mn: "\<forall>(v', m') \<in> set remaining \<times> set (map fst transport_modes).
                 eligible G budget u (val cc) v' m' \<longrightarrow> beats (val s) (score G u v' m')"
      and mm: "m \<in> set (map fst transport_modes)"
      by (auto simp: best_ok_def)
    have vs: "val s = val t + 10 * val c"
      using sco t c by (simp add: score_def)
    have "greedy_trace G budget u remaining (val cc) (sg # segs)"
      using tr t c mem el mn mm vs
      by (auto simp: sg_def eligible_def add.commute)
    moreover have "path = p0 @ (sg # segs)"
      using segs by simp
    ultimately show ?thesis
      using st by auto
  qed
qed

lemma select_loop_trace:
  "select_loop G budget (u, remaining, cc, p0) = Inr path \<Longrightarrow>
   \<exists>segs. path = p0 @ segs \<and> greedy_trace G budget u remaining (val cc) segs"
  using select_loop_trace_aux [of G budget "(u, remaining, cc, p0)" path] by simp

lemma greedy_trace_budget:
  "greedy_trace G budget u remaining spent segs \<Longrightarrow> spent \<le> val budget \<Longrightarrow>
   k \<le> length segs \<Longrightarrow> spent + sum_list (map (\<lambda>s. val (seg_cost s)) (take k segs)) \<le> val budget"
proof (induction segs arbitrary: u remaining spent k)
  case Nil
  then show ?case by simp
next
  case (Cons s segs)
  show ?case
  proof (cases k)
    case 0
    with Cons.prems show ?thesis by simp
  next
    case (Suc j)
    from Cons.prems(1) have tr: "greedy_trace G budget (seg_to s) (removeAll (seg_to s) remaining)
        (spent + val (seg_cost s)) segs" and le: "val (seg_cost s) + spent \<le> val budget"
      by simp_all
    from Cons.IH [OF tr, of j] le Cons.prems(3) Suc show ?thesis
      by (simp add: add.assoc add.commute)
  qed
qed

lemma after_iterations_select:
  "after_iterations G budget n st = Some st' \<Longrightarrow>
   select_loop G budget st = select_loop G budget st'"
proof (induction n arbitrary: st)
  case 0
  then show ?case by simp
next
  case (Suc n)
  then obtain st1 where st1: "iteration G budget st = Next st1"
    and rest: "after_iterations G budget n st1 = Some st'"
    by (auto split: loop_result.splits)
  have "select_loop G budget st = select_loop G budget st1"
    using st1 by (simp add: select_loop.simps)
  with Suc.IH [OF rest] show ?case by simp
qed

lemma select_loop_stuck:
  assumes "\<forall>v \<in> set remaining. \<forall>mode \<in> set (map fst transport_modes).
             out_of_budget G budget u cc v mode"
  shows "select_loop G budget (u, remaining, cc, committed) = Inr committed"
  using scan_out [OF assms, of None]
  by (simp add: select_loop.simps iteration_def)

section \<open>The selector at two budgets\<close>














section \<open>The selector on the concrete graphs\<close>

lemmas demo_defs = demo_graph_def demo_sa_def demo_sb_def demo_ab_def hop_sa_def hop_ab_def

lemmas selector_defs = calculate_optimal_path_def select_loop.simps iteration_def scan_def
  transport_modes_def candidate_step_def get_edge_data_def mode_attr_def graph_attr_def
  num_le_def num_lt_def Let_def

lemma demo_budget_100:
  "calculate_optimal_path id demo_graph (PyFloat 100) = Inr [hop_sa, hop_ab]"
  by (simp add: demo_defs selector_defs)

lemma demo_after_one:
  "after_iterations demo_graph (PyFloat 2) 1 (''S'', id [''A'', ''B''], PyInt 0, []) =
   Some (''A'', [''B''], PyFloat 1, [hop_sa])"
  by (simp add: demo_defs selector_defs)

lemma demo_out_of_budget:
  "\<forall>v \<in> set [''B'']. \<forall>mode \<in> set (map fst transport_modes).
     out_of_budget demo_graph (PyFloat 2) ''A'' (PyFloat 1) v mode"
  by (simp add: demo_defs out_of_budget_def transport_modes_def get_edge_data_def
      mode_attr_def num_le_def)






section \<open>The scheduler\<close>

lemma init_slot_kwargs: "ItineraryStop_init (slot_kwargs seg st et) = Inl ValidationError"
  by (simp add: ItineraryStop_init_def slot_kwargs_def)

lemma slot_loop_fits:
  assumes "num_le (num_add (num_add ct (seg_time seg)) (PyInt 60)) em"
  shows "isl (slot_loop (seg # rest) ct em acc)"
  using assms by (simp add: Let_def init_slot_kwargs split: sum.splits)

lemma slot_loop_result:
  "slot_loop path ct em acc = Inr stops \<Longrightarrow> stops = acc"
  by (cases path) (auto simp add: Let_def init_slot_kwargs split: sum.splits if_splits)

lemmas scheduler_defs = assign_time_slots_def minutes_of_def num_le_def minutes_to_time_def
  mk_time_def init_slot_kwargs nine_def eighteen_def





section \<open>The graph builder\<close>

lemma last_mode_attrs_eq:
  "last_mode_attrs x =
     [(''mode'', Str ''public_transport''), (''distance'', Num (PyFloat x)),
      (''time'', Num (PyFloat (x / 20 * 60))), (''cost'', Num (PyFloat (x * (1 / 2))))]"
  by (simp add: last_mode_attrs_def transport_modes_def)

lemma keys_last_mode: "map fst (last_mode_attrs x) = edge_keys"
  by (simp add: last_mode_attrs_eq edge_keys_def)

lemma adj_add_node [simp]: "adj (add_node n G) = adj G"
  by (simp add: add_node_def)

lemma dict_update_kwargs:
  assumes "d = [] \<or> map fst d = edge_keys"
  shows "dict_update d [(''mode'', a), (''distance'', b), (''time'', c), (''cost'', e)] =
         [(''mode'', a), (''distance'', b), (''time'', c), (''cost'', e)]"
  using assms
proof
  assume "d = []"
  then show ?thesis by (simp add: dict_update_def)
next
  assume "map fst d = edge_keys"
  then obtain v1 v2 v3 v4
    where "d = [(''mode'', v1), (''distance'', v2), (''time'', v3), (''cost'', v4)]"
    by (auto simp: edge_keys_def map_eq_Cons_conv)
  then show ?thesis by (simp add: dict_update_def)
qed

lemma add_edge_kwargs:
  assumes "keyed G u v"
  shows "add_edge u v [(''mode'', a), (''distance'', b), (''time'', c), (''cost'', e)] G =
         put_edge u v [(''mode'', a), (''distance'', b), (''time'', c), (''cost'', e)] G"
proof -
  have "(case adj G (u, v) of None \<Rightarrow> [] | Some d \<Rightarrow> d) = [] \<or>
        map fst (case adj G (u, v) of None \<Rightarrow> [] | Some d \<Rightarrow> d) = edge_keys"
    using assms by (auto simp: keyed_def split: option.splits)
  from dict_update_kwargs [OF this] show ?thesis
    by (simp add: add_edge_def put_edge_def Let_def)
qed

lemma keyed_put_edge:
  "keyed (put_edge u v [(''mode'', a), (''distance'', b), (''time'', c), (''cost'', e)] G) u v"
  by (simp add: keyed_def put_edge_def edge_keys_def)

lemma nodes_add_node_twice:
  "nodes (add_node v (add_node u (put_edge u v d G))) = nodes (add_node v (add_node u G))"
  by (auto simp: add_node_def put_edge_def)

lemma put_edge_twice: "put_edge u v d2 (put_edge u v d1 G) = put_edge u v d2 G"
proof -
  have "nodes (put_edge u v d2 (put_edge u v d1 G)) = nodes (put_edge u v d2 G)"
    using nodes_add_node_twice [of v u d1 G] by (simp add: put_edge_def)
  moreover have "adj (put_edge u v d2 (put_edge u v d1 G)) = adj (put_edge u v d2 G)"
    by (auto simp: put_edge_def fun_eq_iff)
  ultimately show ?thesis
    by (simp add: put_edge_def)
qed

lemma pair_edges_neq:
  assumes "keyed G (name l1) (name l2)" and "i \<noteq> j"
  shows "pair_edges (i, l1) (j, l2) G =
         Inr (put_edge (name l1) (name l2) (last_mode_attrs (val (calculate_distance l1 l2))) G)"
proof -
  have "\<exists>x. calculate_distance l1 l2 = PyFloat x"
    by (cases "coordinates l1"; cases "coordinates l2") (simp add: calculate_distance_def)
  then obtain x where x: "calculate_distance l1 l2 = PyFloat x" ..
  show ?thesis
    using assms
    by (simp add: pair_edges_def transport_modes_def x mode_edge_def num_truediv_def
        add_edge_kwargs keyed_put_edge put_edge_twice last_mode_attrs_eq)
qed

lemma pair_edges_eq: "pair_edges (i, l1) (i, l2) G = Inr G"
  by (simp add: pair_edges_def)

lemma for_each_establish:
  assumes "P s"
    and step: "\<And>x s. x \<in> set xs \<Longrightarrow> P s \<Longrightarrow>
                 \<exists>s'. f x s = Inr s' \<and> P s' \<and> Q x s' \<and> (\<forall>k. M k s \<longrightarrow> M k s')"
    and keep: "\<And>x s s'. Q x s \<Longrightarrow> (\<forall>k. M k s \<longrightarrow> M k s') \<Longrightarrow> Q x s'"
  shows "\<exists>s'. for_each f xs s = Inr s' \<and> P s' \<and> (\<forall>x \<in> set xs. Q x s') \<and> (\<forall>k. M k s \<longrightarrow> M k s')"
  using assms(1) step
proof (induction xs arbitrary: s)
  case Nil
  then show ?case by simp
next
  case (Cons x xs)
  from Cons.prems(2) [of x s] Cons.prems(1)
  obtain s1 where s1: "f x s = Inr s1" "P s1" "Q x s1" "\<forall>k. M k s \<longrightarrow> M k s1"
    by auto
  have "\<exists>s'. for_each f xs s1 = Inr s' \<and> P s' \<and> (\<forall>x \<in> set xs. Q x s') \<and> (\<forall>k. M k s1 \<longrightarrow> M k s')"
    using Cons.IH [OF s1(2)] Cons.prems(2) by simp
  then obtain s' where s': "for_each f xs s1 = Inr s'" "P s'" "\<forall>x \<in> set xs. Q x s'"
    "\<forall>k. M k s1 \<longrightarrow> M k s'"
    by blast
  have "Q x s'"
    using keep [OF s1(3) s'(4)] .
  with s1 s' show ?case by auto
qed

lemma built_keyed:
  assumes "built G"
  shows "keyed G u v"
proof (cases "adj G (u, v)")
  case None
  then show ?thesis by (simp add: keyed_def)
next
  case (Some d)
  with assms obtain x where "d = last_mode_attrs x"
    unfolding built_def by blast
  with Some show ?thesis
    by (simp add: keyed_def keys_last_mode)
qed

lemma built_empty: "built empty_graph"
  by (simp add: built_def empty_graph_def)



lemma adj_put_edge:
  "adj (put_edge u v d G) p = (if p = (v, u) then Some d else if p = (u, v) then Some d else adj G p)"
  unfolding put_edge_def
  apply (simp only: graph.simps)
  apply (simp only: fun_upd_apply)
  done


lemma built_put_edge:
  assumes "built G"
  shows "built (put_edge u v (last_mode_attrs x) G)"
proof -
  have "distinct (nodes (put_edge u v (last_mode_attrs x) G))"
    using assms by (auto simp: built_def put_edge_def add_node_def)
  moreover have "adj (put_edge u v (last_mode_attrs x) G) (a, b) =
                 adj (put_edge u v (last_mode_attrs x) G) (b, a)" for a b
  proof -
    have s: "adj G (a, b) = adj G (b, a)"
      using assms unfolding built_def by blast
    have c1: "((a, b) = (v, u)) = ((b, a) = (u, v))"
      by blast
    have c2: "((a, b) = (u, v)) = ((b, a) = (v, u))"
      by blast
    show ?thesis
      unfolding adj_put_edge c1 c2 s
      by (cases "(b, a) = (u, v)"; cases "(b, a) = (v, u)") (simp_all only: if_True if_False)
  qed
  moreover have "\<exists>y. d = last_mode_attrs y"
    if "adj (put_edge u v (last_mode_attrs x) G) p = Some d" for p d
  proof (cases "p = (v, u) \<or> p = (u, v)")
    case True
    then have "adj (put_edge u v (last_mode_attrs x) G) p = Some (last_mode_attrs x)"
      unfolding adj_put_edge by (metis (full_types))
    with that show ?thesis
      by (metis option.inject)
  next
    case False
    then have "adj (put_edge u v (last_mode_attrs x) G) p = adj G p"
      unfolding adj_put_edge by (metis (full_types))
    with that assms show ?thesis
      unfolding built_def by metis
  qed
  ultimately show ?thesis
    unfolding built_def by blast
qed

lemma nodes_put_edge: "set (nodes (put_edge u v d G)) = insert u (insert v (set (nodes G)))"
  by (auto simp: put_edge_def add_node_def)

lemma has_edge_put_edge: "has_edge (u, v) (put_edge u v d G)"
  by (simp add: has_edge_def put_edge_def)

lemma has_edge_mono: "has_edge p G \<Longrightarrow> has_edge p (put_edge u v d G)"
  by (simp add: has_edge_def put_edge_def)

lemma inner_loop:
  assumes "built G" and "set (nodes G) \<subseteq> name ` set locs" and "l1 \<in> set locs"
  shows "\<exists>G'. for_each (pair_edges (i, l1)) (List.enumerate 0 locs) G = Inr G' \<and>
           (built G' \<and> set (nodes G') \<subseteq> name ` set locs) \<and>
           (\<forall>p2 \<in> set (List.enumerate 0 locs). i \<noteq> fst p2 \<longrightarrow> has_edge (name l1, name (snd p2)) G') \<and>
           (\<forall>k. has_edge k G \<longrightarrow> has_edge k G')"
proof (rule for_each_establish
    [where P = "\<lambda>G. built G \<and> set (nodes G) \<subseteq> name ` set locs"
       and Q = "\<lambda>p2 G. i \<noteq> fst p2 \<longrightarrow> has_edge (name l1, name (snd p2)) G"
       and M = has_edge])
  show "built G \<and> set (nodes G) \<subseteq> name ` set locs"
    using assms by simp
next
  fix p2 :: "nat \<times> Location" and H
  assume mem: "p2 \<in> set (List.enumerate 0 locs)"
    and inv: "built H \<and> set (nodes H) \<subseteq> name ` set locs"
  obtain j l2 where p2: "p2 = (j, l2)"
    by (cases p2)
  have l2: "l2 \<in> set locs"
    using mem p2 by (auto simp: in_set_enumerate_eq)
  show "\<exists>H'. pair_edges (i, l1) p2 H = Inr H' \<and>
          (built H' \<and> set (nodes H') \<subseteq> name ` set locs) \<and>
          (i \<noteq> fst p2 \<longrightarrow> has_edge (name l1, name (snd p2)) H') \<and>
          (\<forall>k. has_edge k H \<longrightarrow> has_edge k H')"
  proof (cases "i = j")
    case True
    with inv p2 show ?thesis
      by (simp add: pair_edges_eq)
  next
    case False
    have "pair_edges (i, l1) (j, l2) H =
          Inr (put_edge (name l1) (name l2) (last_mode_attrs (val (calculate_distance l1 l2))) H)"
      using pair_edges_neq [OF built_keyed False] inv by simp
    with inv p2 l2 assms(3) show ?thesis
      by (simp add: built_put_edge nodes_put_edge has_edge_put_edge has_edge_mono)
  qed
next
  fix p2 :: "nat \<times> Location" and H H'
  assume "i \<noteq> fst p2 \<longrightarrow> has_edge (name l1, name (snd p2)) H"
    and "\<forall>k. has_edge k H \<longrightarrow> has_edge k H'"
  then show "i \<noteq> fst p2 \<longrightarrow> has_edge (name l1, name (snd p2)) H'"
    by blast
qed

lemma outer_loop:
  "\<exists>G. build_graph locs = Inr G \<and>
     (built G \<and> set (nodes G) \<subseteq> name ` set locs) \<and>
     (\<forall>p1 \<in> set (List.enumerate 0 locs). \<forall>p2 \<in> set (List.enumerate 0 locs).
        fst p1 \<noteq> fst p2 \<longrightarrow> has_edge (name (snd p1), name (snd p2)) G)"
proof -
  have "\<exists>G. for_each (\<lambda>p1. for_each (pair_edges p1) (List.enumerate 0 locs))
               (List.enumerate 0 locs) empty_graph = Inr G \<and>
          (built G \<and> set (nodes G) \<subseteq> name ` set locs) \<and>
          (\<forall>p1 \<in> set (List.enumerate 0 locs). \<forall>p2 \<in> set (List.enumerate 0 locs).
             fst p1 \<noteq> fst p2 \<longrightarrow> has_edge (name (snd p1), name (snd p2)) G) \<and>
          (\<forall>k. has_edge k empty_graph \<longrightarrow> has_edge k G)"
  proof (rule for_each_establish
      [where P = "\<lambda>G. built G \<and> set (nodes G) \<subseteq> name ` set locs"
         and Q = "\<lambda>p1 G. \<forall>p2 \<in> set (List.enumerate 0 locs).
                    fst p1 \<noteq> fst p2 \<longrightarrow> has_edge (name (snd p1), name (snd p2)) G"
         and M = has_edge])
    show "built empty_graph \<and> set (nodes empty_graph) \<subseteq> name ` set locs"
      by (simp add: built_empty) (simp add: empty_graph_def)
  next
    fix p1 :: "nat \<times> Location" and H
    assume mem: "p1 \<in> set (List.enumerate 0 locs)"
      and inv: "built H \<and> set (nodes H) \<subseteq> name ` set locs"
    obtain i l1 where p1: "p1 = (i, l1)"
      by (cases p1)
    have l1: "l1 \<in> set locs"
      using mem p1 by (auto simp: in_set_enumerate_eq)
    from inner_loop [of H locs l1 i] inv l1 p1
    show "\<exists>H'. for_each (pair_edges p1) (List.enumerate 0 locs) H = Inr H' \<and>
            (built H' \<and> set (nodes H') \<subseteq> name ` set locs) \<and>
            (\<forall>p2 \<in> set (List.enumerate 0 locs).
               fst p1 \<noteq> fst p2 \<longrightarrow> has_edge (name (snd p1), name (snd p2)) H') \<and>
            (\<forall>k. has_edge k H \<longrightarrow> has_edge k H')"
      by simp
  next
    fix p1 :: "nat \<times> Location" and H H'
    assume "\<forall>p2 \<in> set (List.enumerate 0 locs).
              fst p1 \<noteq> fst p2 \<longrightarrow> has_edge (name (snd p1), name (snd p2)) H"
      and "\<forall>k. has_edge k H \<longrightarrow> has_edge k H'"
    then show "\<forall>p2 \<in> set (List.enumerate 0 locs).
              fst p1 \<noteq> fst p2 \<longrightarrow> has_edge (name (snd p1), name (snd p2)) H'"
      by blast
  qed
  then show ?thesis
    unfolding build_graph_def by blast
qed


lemma create_travel_graph_built:
  "\<exists>G. create_travel_graph stops starting_point = Inr G \<and> built G"
  using outer_loop unfolding create_travel_graph_def by blast

section \<open>The selector on a graph the builder made\<close>

lemma mode_attr_last_mode:
  "m \<in> set (map fst transport_modes) \<Longrightarrow> mode_attr (last_mode_attrs x) m key = Inl KeyError"
  by (auto simp: transport_modes_def mode_attr_def last_mode_attrs_eq)

lemma candidate_step_built:
  assumes "built G" and "m \<in> set (map fst transport_modes)"
  shows "candidate_step G budget u cc v m b =
         (case adj G (u, v) of None \<Rightarrow> Inr b | Some _ \<Rightarrow> Inl KeyError)"
proof (cases "adj G (u, v)")
  case None
  then show ?thesis
    by (simp add: candidate_step_def get_edge_data_def)
next
  case (Some d)
  with assms(1) obtain x where d: "d = last_mode_attrs x"
    unfolding built_def by blast
  have "d \<noteq> []"
    using d by (simp add: last_mode_attrs_eq)
  with Some d mode_attr_last_mode [OF assms(2)] show ?thesis
    by (simp add: candidate_step_def get_edge_data_def)
qed

lemma modes_built:
  assumes "built G"
  shows "for_each (candidate_step G budget u cc v) (map fst transport_modes) b =
         (case adj G (u, v) of None \<Rightarrow> Inr b | Some _ \<Rightarrow> Inl KeyError)"
proof -
  have "for_each (candidate_step G budget u cc v) ms b =
        (if ms = [] then Inr b
         else case adj G (u, v) of None \<Rightarrow> Inr b | Some _ \<Rightarrow> Inl KeyError)"
    if "set ms \<subseteq> set (map fst transport_modes)" for ms
    using that
    by (induction ms) (auto simp: candidate_step_built [OF assms] split: option.splits)
  from this [of "map fst transport_modes"] show ?thesis
    by (simp add: transport_modes_def)
qed

lemma scan_built:
  assumes "built G"
  shows "scan G budget u cc ns b =
         (if \<exists>v \<in> set ns. adj G (u, v) \<noteq> None then Inl KeyError else Inr b)"
  unfolding scan_def
  by (induction ns) (auto simp: modes_built [OF assms] split: option.splits)

lemma select_loop_built:
  assumes "built G"
  shows "select_loop G budget (u, remaining, cc, p) =
         (if \<exists>v \<in> set remaining. adj G (u, v) \<noteq> None then Inl KeyError else Inr p)"
  by (cases "remaining = []")
    (simp_all add: select_loop.simps iteration_def scan_built [OF assms])

lemma path_built:
  assumes "built G"
  shows "calculate_optimal_path set_order G budget =
         (case nodes G of
            [] \<Rightarrow> Inl IndexError
          | u # rest \<Rightarrow>
              if \<exists>v \<in> set (set_order rest). adj G (u, v) \<noteq> None then Inl KeyError else Inr [])"
  by (simp add: calculate_optimal_path_def select_loop_built [OF assms] split: list.splits)

lemma optimize_route_budget:
  "optimize_route set_order stops b1 start_t end_t starting_point =
   optimize_route set_order stops b2 start_t end_t starting_point"
proof -
  obtain G where "create_travel_graph stops starting_point = Inr G" and "built G"
    using create_travel_graph_built by blast
  then show ?thesis
    by (simp add: optimize_route_def route_on_graph_def path_built)
qed

subsection \<open>The concrete graphs\<close>

lemma dist_ab: "calculate_distance place_a place_b = PyFloat 2"
  by (simp add: calculate_distance_def place_a_def place_b_def)

lemma dist_ba: "calculate_distance place_b place_a = PyFloat 2"
  by (simp add: calculate_distance_def place_a_def place_b_def)

lemma build_two: "create_travel_graph [visit place_a, visit place_b] None = Inr two_places"
proof -
  have k0: "keyed empty_graph ''A'' ''B''"
    by (rule built_keyed [OF built_empty])
  have k1: "keyed (put_edge ''A'' ''B'' (last_mode_attrs 2) empty_graph) ''B'' ''A''"
    by (rule built_keyed [OF built_put_edge [OF built_empty]])
  have na: "name place_a = ''A''" and nb: "name place_b = ''B''"
    by (simp_all add: place_a_def place_b_def)
  have s1: "pair_edges (0, place_a) (Suc 0, place_b) empty_graph =
            Inr (put_edge ''A'' ''B'' (last_mode_attrs 2) empty_graph)"
    using pair_edges_neq [of empty_graph place_a place_b 0 "Suc 0"] k0
    by (simp add: na nb dist_ab)
  have s2: "pair_edges (Suc 0, place_b) (0, place_a)
              (put_edge ''A'' ''B'' (last_mode_attrs 2) empty_graph) =
            Inr (put_edge ''B'' ''A'' (last_mode_attrs 2)
                  (put_edge ''A'' ''B'' (last_mode_attrs 2) empty_graph))"
    using pair_edges_neq [of "put_edge ''A'' ''B'' (last_mode_attrs 2) empty_graph"
        place_b place_a "Suc 0" 0] k1
    by (simp add: na nb dist_ba)
  show ?thesis
    by (simp add: create_travel_graph_def build_graph_def visit_def pair_edges_eq s1 s2
        two_places_def)
qed

lemma build_single: "create_travel_graph [visit place_a] None = Inr empty_graph"
  by (simp add: create_travel_graph_def build_graph_def visit_def pair_edges_eq)

lemma nodes_two_places: "nodes two_places = [''A'', ''B'']"
  by (simp add: two_places_def put_edge_def add_node_def empty_graph_def)

lemma adj_two_places:
  "adj two_places (''A'', ''B'') = Some (last_mode_attrs 2)"
  "adj two_places (''B'', ''A'') = Some (last_mode_attrs 2)"
  by (simp_all add: two_places_def adj_put_edge)



lemma demo_budget_3:
  "calculate_optimal_path id demo_graph (PyFloat 3) = Inr [hop_sa, hop_ab]"
  by (simp add: demo_defs selector_defs)


section \<open>The claims\<close>

text \<open>
  C1.  For every budget \<open>b \<ge> 0\<close> and every graph, the path selector commits a hop only when
  its travel cost, added to the travel cost of the segments committed before, stays
  within \<open>b\<close>: every prefix of the returned path, and so the whole path, has a travel
  cost of at most \<open>b\<close>.
\<close>

theorem selected_path_within_budget:
  assumes "0 \<le> val budget"
    and "calculate_optimal_path set_order G budget = Inr path"
  shows "(\<forall>k \<le> length path. travel_cost_sum (take k path) \<le> val budget) \<and>
         travel_cost_sum path \<le> val budget"
proof -
  obtain u rest where "nodes G = u # rest"
    and "select_loop G budget (u, set_order rest, PyInt 0, []) = Inr path"
    using assms(2) by (auto simp: calculate_optimal_path_def split: list.splits)
  from select_loop_trace [OF this(2)]
  have tr: "greedy_trace G budget u (set_order rest) 0 path"
    by simp
  have "travel_cost_sum (take k path) \<le> val budget" if "k \<le> length path" for k
    using greedy_trace_budget [OF tr _ that] assms(1) by (simp add: travel_cost_sum_def)
  then show ?thesis
    by (metis order_refl take_all)
qed

theorem selected_path_within_budget_witness:
  "0 \<le> val (PyFloat 100) \<and>
   calculate_optimal_path id demo_graph (PyFloat 100) = Inr [hop_sa, hop_ab] \<and>
   travel_cost_sum (take 1 [hop_sa, hop_ab]) \<le> val (PyFloat 100) \<and>
   travel_cost_sum [hop_sa, hop_ab] \<le> val (PyFloat 100)"
proof -
  have b: "0 \<le> val (PyFloat 100)" by simp
  from selected_path_within_budget [OF b demo_budget_100] demo_budget_100 show ?thesis
    by (simp add: travel_cost_sum_def hop_sa_def hop_ab_def)
qed

text \<open>
  C2.  The specification has the scheduler commit a stop for every segment that fits the
  window.  On a path of one segment that fits (ten minutes of travel from 09:00, the day ending at
  18:00) the scheduler raises instead: the validation error of the constructor when the
  travel time is an integer, the type error of \<^verbatim>\<open>datetime.time\<close> when it is a float.
\<close>

theorem scheduler_raises_on_fitting_segment:
  "assign_time_slots [walk_ab] nine eighteen = Inl ValidationError \<and>
   assign_time_slots [hop_sa] nine eighteen = Inl TypeError"
  by (simp add: scheduler_defs walk_ab_def hop_sa_def)





text \<open>
  C5.  The specification has one entry per transport mode on every edge.  For two places
  two units apart the built graph has, on its one edge, the entry of the last mode only: no
  walking and no taxi entry.  For a single place the built graph has no node at all.
\<close>

theorem built_graph_keeps_last_mode_only:
  "create_travel_graph [visit place_a, visit place_b] None = Inr two_places \<and>
   nodes two_places = [''A'', ''B''] \<and>
   adj two_places (''A'', ''B'') =
     Some [(''mode'', Str ''public_transport''), (''distance'', Num (PyFloat 2)),
           (''time'', Num (PyFloat 6)), (''cost'', Num (PyFloat 1))] \<and>
   adj two_places (''B'', ''A'') = adj two_places (''A'', ''B'') \<and>
   graph_attr two_places ''A'' ''B'' ''walking'' ''cost'' = Inl KeyError \<and>
   graph_attr two_places ''A'' ''B'' ''taxi'' ''cost'' = Inl KeyError \<and>
   graph_attr two_places ''A'' ''B'' ''public_transport'' ''cost'' = Inl KeyError \<and>
   create_travel_graph [visit place_a] None = Inr empty_graph \<and>
   nodes empty_graph = []"
  by (simp add: build_two build_single nodes_two_places adj_two_places last_mode_attrs_eq
      graph_attr_def mode_attr_def empty_graph_def)

text \<open>
  C6.  When the selector reaches an iteration at which no (node, mode) candidate keeps
  the running travel cost within the budget, it ends there and returns, as a normal
  result, the segments committed so far (none, if this is the first iteration).
\<close>

theorem selector_stops_early:
  assumes "nodes G = u0 # rest"
    and "after_iterations G budget n (u0, set_order rest, PyInt 0, []) =
           Some (u, remaining, cc, committed)"
    and "\<forall>v \<in> set remaining. \<forall>mode \<in> set (map fst transport_modes).
           out_of_budget G budget u cc v mode"
  shows "calculate_optimal_path set_order G budget = Inr committed"
  using after_iterations_select [OF assms(2)] select_loop_stuck [OF assms(3)] assms(1)
  by (simp add: calculate_optimal_path_def)

theorem selector_stops_early_witness:
  "nodes demo_graph = ''S'' # [''A'', ''B''] \<and>
   after_iterations demo_graph (PyFloat 2) 1 (''S'', id [''A'', ''B''], PyInt 0, []) =
     Some (''A'', [''B''], PyFloat 1, [hop_sa]) \<and>
   out_of_budget demo_graph (PyFloat 2) ''A'' (PyFloat 1) ''B'' ''walking'' \<and>
   out_of_budget demo_graph (PyFloat 2) ''A'' (PyFloat 1) ''B'' ''taxi'' \<and>
   out_of_budget demo_graph (PyFloat 2) ''A'' (PyFloat 1) ''B'' ''public_transport'' \<and>
   calculate_optimal_path id demo_graph (PyFloat 2) = Inr [hop_sa]"
proof -
  have n: "nodes demo_graph = ''S'' # [''A'', ''B'']"
    by (simp add: demo_graph_def)
  have out: "\<forall>v \<in> set [''B'']. \<forall>mode \<in> set (map fst transport_modes).
               out_of_budget demo_graph (PyFloat 2) ''A'' (PyFloat 1) v mode"
    using demo_out_of_budget .
  from selector_stops_early [where set_order = id, OF n demo_after_one out]
    n demo_after_one out
  show ?thesis by (simp add: transport_modes_def)
qed









text \<open>
  C10.  When the first segment of a path fits the time window, the scheduler fails
  instead of returning a list: the constructor call it makes passes the name of the
  destination for \<^verbatim>\<open>location\<close> and neither \<^verbatim>\<open>activity_type\<close> nor \<^verbatim>\<open>status\<close>, which
  the validation refuses.  So the scheduler never returns a list with a stop in it.
\<close>

theorem scheduler_never_returns_a_stop:
  "(first_fits start_t seg end_t \<longrightarrow> isl (assign_time_slots (seg # rest) start_t end_t)) \<and>
   kw_location (slot_kwargs seg st et) = Some (LocName (seg_to seg)) \<and>
   kw_activity_type (slot_kwargs seg st et) = None \<and>
   kw_status (slot_kwargs seg st et) = None \<and>
   ItineraryStop_init (slot_kwargs seg st et) = Inl ValidationError \<and>
   (assign_time_slots path start_t end_t = Inr stops \<longrightarrow> stops = [])"
proof -
  have "isl (assign_time_slots (seg # rest) start_t end_t)" if "first_fits start_t seg end_t"
    using that slot_loop_fits unfolding first_fits_def assign_time_slots_def by blast
  moreover have "stops = []" if "assign_time_slots path start_t end_t = Inr stops"
    using that slot_loop_result unfolding assign_time_slots_def by blast
  ultimately show ?thesis
    by (simp add: init_slot_kwargs) (simp add: slot_kwargs_def)
qed

theorem scheduler_never_returns_a_stop_witness:
  "first_fits nine walk_ab eighteen \<and>
   isl (assign_time_slots (walk_ab # [walk_bc]) nine eighteen) \<and>
   assign_time_slots [far_ab] nine eighteen = Inr [] \<and>
   ([] :: ItineraryStop list) = []"
proof -
  have f: "first_fits nine walk_ab eighteen"
    by (simp add: first_fits_def scheduler_defs walk_ab_def)
  have r: "assign_time_slots [far_ab] nine eighteen = Inr []"
    by (simp add: scheduler_defs far_ab_def)
  from scheduler_never_returns_a_stop [of nine walk_ab eighteen "[walk_bc]" nine eighteen
      "[far_ab]" "[]"] f r
  show ?thesis by simp
qed


end
